theory Spec2Isabelle
  imports Complex_Main
begin

section \<open>JavaScript numbers, as far as the two modules use them\<close>

text \<open>
  Every number the two modules compute with is an integer, plus or minus infinity, or NaN:
  the pagination component reads its three inputs through \<open>| 0\<close> (ToInt32), and the only
  division, \<open>total / page_size\<close>, is rounded up by \<open>Math.ceil\<close> at once. Integers stay far
  below \<open>2^53\<close>, so double arithmetic on them is exact and \<open>int\<close> models it. The double
  \<open>-0\<close> (from \<open>Math.ceil\<close> of a quotient in \<open>(-1, 0]\<close>) is identified with \<open>0\<close>: comparison
  and addition do not tell them apart, and the component only ever emits integers from 1 up.
\<close>

datatype jsnum = Finite int | PlusInfinity | MinusInfinity | NaN

text \<open>\<open>undefined\<close> is \<open>None\<close>; used as a number it is NaN.\<close>

fun to_number :: "int option \<Rightarrow> jsnum" where
  "to_number None = NaN"
| "to_number (Some v) = Finite v"

text \<open>\<open>x | 0\<close>: ToInt32 of an integer wraps it into \<open>[-2^31, 2^31)\<close>; \<open>undefined | 0\<close> is 0.\<close>

definition toInt32 :: "int \<Rightarrow> int" where
  "toInt32 x = (x + 2147483648) mod 4294967296 - 2147483648"

fun or0 :: "int option \<Rightarrow> int" where
  "or0 None = 0"
| "or0 (Some v) = toInt32 v"

fun js_neg :: "jsnum \<Rightarrow> jsnum" where
  "js_neg (Finite a) = Finite (- a)"
| "js_neg PlusInfinity = MinusInfinity"
| "js_neg MinusInfinity = PlusInfinity"
| "js_neg NaN = NaN"

fun js_add :: "jsnum \<Rightarrow> jsnum \<Rightarrow> jsnum" where
  "js_add (Finite a) (Finite b) = Finite (a + b)"
| "js_add NaN _ = NaN"
| "js_add _ NaN = NaN"
| "js_add PlusInfinity MinusInfinity = NaN"
| "js_add MinusInfinity PlusInfinity = NaN"
| "js_add PlusInfinity _ = PlusInfinity"
| "js_add _ PlusInfinity = PlusInfinity"
| "js_add MinusInfinity _ = MinusInfinity"
| "js_add _ MinusInfinity = MinusInfinity"

definition js_sub :: "jsnum \<Rightarrow> jsnum \<Rightarrow> jsnum" where
  "js_sub a b = js_add a (js_neg b)"

text \<open>\<open>a < b\<close> and \<open>a <= b\<close>: false as soon as one side is NaN.\<close>

fun js_lt :: "jsnum \<Rightarrow> jsnum \<Rightarrow> bool" where
  "js_lt (Finite a) (Finite b) = (a < b)"
| "js_lt NaN _ = False"
| "js_lt _ NaN = False"
| "js_lt _ MinusInfinity = False"
| "js_lt MinusInfinity _ = True"
| "js_lt PlusInfinity _ = False"
| "js_lt _ PlusInfinity = True"

fun js_le :: "jsnum \<Rightarrow> jsnum \<Rightarrow> bool" where
  "js_le (Finite a) (Finite b) = (a \<le> b)"
| "js_le NaN _ = False"
| "js_le _ NaN = False"
| "js_le MinusInfinity _ = True"
| "js_le _ PlusInfinity = True"
| "js_le _ MinusInfinity = False"
| "js_le PlusInfinity _ = False"

definition js_ge :: "jsnum \<Rightarrow> jsnum \<Rightarrow> bool" where
  "js_ge a b = js_le b a"

text \<open>\<open>Math.min\<close> and \<open>Math.max\<close> of two numbers: NaN as soon as one argument is NaN.\<close>

fun Math_min :: "jsnum \<Rightarrow> jsnum \<Rightarrow> jsnum" where
  "Math_min NaN _ = NaN"
| "Math_min _ NaN = NaN"
| "Math_min a b = (if js_le a b then a else b)"

fun Math_max :: "jsnum \<Rightarrow> jsnum \<Rightarrow> jsnum" where
  "Math_max NaN _ = NaN"
| "Math_max _ NaN = NaN"
| "Math_max a b = (if js_le a b then b else a)"

text \<open>
  \<open>Math.ceil(a / b)\<close> for 32-bit integers \<open>a\<close> and \<open>b\<close>. Dividing by zero gives an
  infinity of the sign of \<open>a\<close>, and \<open>0 / 0\<close> is NaN; \<open>Math.ceil\<close> keeps all three. Otherwise
  the double quotient is the exact quotient rounded to nearest: an exact quotient that is no
  integer is at least \<open>1 / |b|\<close> away from every integer, and the rounding error is far
  smaller, so rounding never reaches or crosses an integer and \<open>Math.ceil\<close> of the double is
  the ceiling of the exact quotient, which is \<open>- ((- a) div b)\<close> for the flooring \<open>div\<close>.
\<close>

definition Math_ceil_div :: "int \<Rightarrow> int \<Rightarrow> jsnum" where
  "Math_ceil_div a b =
     (if b = 0 then (if a = 0 then NaN else if 0 < a then PlusInfinity else MinusInfinity)
      else Finite (- ((- a) div b)))"

section \<open>The pagination component (\<open>Pagination.tsx\<close>)\<close>

text \<open>
  The descriptor \<open>props.pagination\<close>. Its fields hold integers; they are read as
  \<open>props.pagination?.f\<close>, so the descriptor may be absent: \<open>pagination option\<close>, where
  every field of \<open>None\<close> reads as \<open>undefined\<close>. The field \<open>total\<close> is written \<open>total'\<close>.
\<close>

record pagination =
  current :: int
  page_size :: int
  total' :: int

fun field :: "(pagination \<Rightarrow> int) \<Rightarrow> pagination option \<Rightarrow> int option" where
  "field f None = None"
| "field f (Some p) = Some (f p)"

text \<open>The component's variables (\<open>let pageCount = 0; ...\<close>) and its signal \<open>pageArray\<close>.\<close>

record component =
  pageCount :: jsnum
  beforeOffset :: jsnum
  left :: jsnum
  right :: jsnum
  afterOffset :: jsnum
  pageArray :: "int list option"

definition Pagination_init :: component where
  "Pagination_init =
     \<lparr>pageCount = Finite 0, beforeOffset = Finite 0, left = Finite 0, right = Finite 0,
      afterOffset = Finite 0, pageArray = None\<rparr>"

text \<open>
  \<open>for (let i = left; i <= right; i++) pageArray.push(i)\<close> on integer bounds.
\<close>

function for_push :: "int \<Rightarrow> int \<Rightarrow> int list \<Rightarrow> int list" where
  "for_push i r arr = (if i \<le> r then for_push (i + 1) r (arr @ [i]) else arr)"
  by pat_completeness auto
termination
  by (relation "measure (\<lambda>(i, r, arr). nat (r + 1 - i))") auto

declare for_push.simps [simp del]

text \<open>
  The same loop on any two numbers. The test fails at once when a bound is NaN, when
  \<open>right\<close> is minus infinity and \<open>left\<close> is not, or when \<open>left\<close> is plus infinity and
  \<open>right\<close> is not. In the remaining cases with an infinite bound the test holds and \<open>i++\<close>
  never changes it (or never reaches \<open>right\<close>): the loop does not end, which is \<open>None\<close>.
\<close>

fun for_loop :: "jsnum \<Rightarrow> jsnum \<Rightarrow> int list option" where
  "for_loop (Finite i) (Finite r) = Some (for_push i r [])"
| "for_loop NaN _ = Some []"
| "for_loop _ NaN = Some []"
| "for_loop (Finite i) MinusInfinity = Some []"
| "for_loop PlusInfinity (Finite r) = Some []"
| "for_loop PlusInfinity MinusInfinity = Some []"
| "for_loop (Finite i) PlusInfinity = None"
| "for_loop PlusInfinity PlusInfinity = None"
| "for_loop MinusInfinity _ = None"

text \<open>
  The body of \<open>createEffect\<close>: from the descriptor and the component's variables to the
  variables after the run, or \<open>None\<close> when the loop does not end.
\<close>

definition createEffect :: "pagination option \<Rightarrow> component \<Rightarrow> component option" where
  "createEffect props c =
     (let total = or0 (field total' props);
          page_size = or0 (field page_size props);
          current = or0 (field current props);
          pageCount = Math_ceil_div total page_size;
          beforeOffset = Finite (current - 5);
          left = Math_max (Finite 1) beforeOffset;
          right = Math_min (Finite (current + 4)) pageCount;
          afterOffset = js_sub (js_sub pageCount (Finite current)) (Finite 5);
          right = (if js_lt beforeOffset (Finite 0)
                   then Math_min pageCount (js_sub right beforeOffset) else right);
          left = (if js_lt afterOffset (Finite 0)
                  then Math_max (Finite 1) (js_add afterOffset left) else left)
      in case for_loop left right of
           None \<Rightarrow> None
         | Some arr \<Rightarrow>
             Some (c\<lparr>pageCount := pageCount, beforeOffset := beforeOffset, left := left,
                     right := right, afterOffset := afterOffset, pageArray := Some arr\<rparr>))"

text \<open>The page window: the signal's value after the effect has run on a fresh component.\<close>

definition pageWindow :: "pagination option \<Rightarrow> int list option" where
  "pageWindow props =
     (case createEffect props Pagination_init of None \<Rightarrow> None | Some c \<Rightarrow> pageArray c)"

text \<open>The value of \<open>pageCount\<close> the effect leaves behind for the click handlers.\<close>

definition pageCount_of :: "pagination option \<Rightarrow> jsnum" where
  "pageCount_of props =
     Math_ceil_div (or0 (field total' props)) (or0 (field page_size props))"

text \<open>
  The click handlers. \<open>props.pageSetter\<close> is the caller's store setter; a handler's result
  is the list of calls it makes to it: \<open>pageSetter("current", (p) => ...)\<close> with an updater,
  or \<open>pageSetter("current", item)\<close> with a value.
\<close>

datatype setter_arg = Updater "int \<Rightarrow> int" | NewValue int

datatype setter_call = PageSetter string setter_arg

definition prev_onClick :: "pagination option \<Rightarrow> setter_call list" where
  "prev_onClick props =
     (if js_le (to_number (field current props)) (Finite 1) then []
      else [PageSetter ''current'' (Updater (\<lambda>p. p - 1))])"

definition item_onClick :: "int \<Rightarrow> setter_call list" where
  "item_onClick item = [PageSetter ''current'' (NewValue item)]"

definition next_onClick :: "component \<Rightarrow> pagination option \<Rightarrow> setter_call list" where
  "next_onClick c props =
     (if js_ge (to_number (field current props)) (pageCount c) then []
      else [PageSetter ''current'' (Updater (\<lambda>p. p + 1))])"

section \<open>The mock list provider\<close>

text \<open>
  The four image assets the module imports (\<open>m\<close>, \<open>origin\<close>, \<open>s\<close>, \<open>xs\<close>) are opaque
  values. A \<open>Resolve\<close> is the object \<open>JSON.parse\<close> returns for the template string of the
  loop: its keys with their values, in the order the object enumerates them, which is the
  integer-like key \<open>`${i}`\<close> first and then the other keys in the order of the text (the asset
  URLs are taken to be plain text that needs no escaping inside a JSON string).
\<close>

datatype asset = M_webp | Origin_jpg | S_webp | XS_webp

type_synonym Resolve = "(string \<times> asset) list"

definition partitionsOk :: "string list" where
  "partitionsOk = [''default'', ''avatar'', ''cover'']"

text \<open>\<open>`${i}`\<close>: the decimal digits of a natural number.\<close>

definition digit :: "nat \<Rightarrow> char" where
  "digit d = ''0123456789'' ! d"

function decimal :: "nat \<Rightarrow> string" where
  "decimal n = (if n < 10 then [digit n] else decimal (n div 10) @ [digit (n mod 10)])"
  by pat_completeness auto
termination
  by (relation "measure id") auto

declare decimal.simps [simp del]

definition resolve_at :: "nat \<Rightarrow> Resolve" where
  "resolve_at i =
     [(decimal i, XS_webp), (''middle'', M_webp), (''origin'', Origin_jpg), (''s'', S_webp),
      (''hello'', XS_webp), (''hel'', XS_webp)]"

text \<open>
  \<open>for (let i = 0; i < length; i++) resolves.push(obj)\<close>. The constant \<open>length\<close> (54 in
  the source, \<open>length'\<close> below) is a parameter of the loop and of the provider, so that
  datasets of other sizes can be stated.
\<close>

function build_resolves :: "nat \<Rightarrow> nat \<Rightarrow> Resolve list \<Rightarrow> Resolve list" where
  "build_resolves i len acc =
     (if i < len then build_resolves (i + 1) len (acc @ [resolve_at i]) else acc)"
  by pat_completeness auto
termination
  by (relation "measure (\<lambda>(i, len, acc). len - i)") auto

declare build_resolves.simps [simp del]

definition length' :: nat where
  "length' = 54"

definition resolves_of :: "nat \<Rightarrow> Resolve list" where
  "resolves_of len = build_resolves 0 len []"

definition resolves :: "Resolve list" where
  "resolves = resolves_of length'"

text \<open>\<open>ListResponse<T>\<close>; the field \<open>list\<close> is written \<open>list'\<close>.\<close>

record 'a ListResponse =
  list' :: "'a list"
  pagination :: pagination

text \<open>
  \<open>Array.prototype.forEach\<close>: the callback runs on every element with its index, in order;
  the state it mutates (here the local \<open>list\<close>) is threaded through.
\<close>

fun forEach :: "('s \<Rightarrow> 'a \<Rightarrow> nat \<Rightarrow> 's) \<Rightarrow> nat \<Rightarrow> 'a list \<Rightarrow> 's \<Rightarrow> 's" where
  "forEach f index [] st = st"
| "forEach f index (v # rest) st = forEach f (index + 1) rest (f st v index)"

text \<open>
  The callback of \<open>listPicturesOk\<close>. Its second \<open>if\<close> returns from the callback only:
  it ends this call, which had nothing left to do, and \<open>forEach\<close> goes on.
\<close>

definition push_in_range :: "int \<Rightarrow> int \<Rightarrow> Resolve list \<Rightarrow> Resolve \<Rightarrow> nat \<Rightarrow> Resolve list" where
  "push_in_range start end' lst v index =
     (let lst = (if start \<le> int index \<and> int index < end' then lst @ [v] else lst)
      in if end' < int index then lst else lst)"

definition listPicturesOk_len :: "nat \<Rightarrow> int \<Rightarrow> Resolve ListResponse" where
  "listPicturesOk_len len cur =
     (let lst = [];
          start = (cur - 1) * 10;
          end' = start + 10;
          lst = forEach (push_in_range start end') 0 (resolves_of len) lst
      in \<lparr>list' = lst,
          pagination = \<lparr>current = cur, page_size = 10, total' = int len\<rparr>\<rparr>)"

definition listPicturesOk :: "int \<Rightarrow> Resolve ListResponse" where
  "listPicturesOk = listPicturesOk_len length'"

section \<open>The specification's page window algorithm\<close>

text \<open>
  The seven steps of the specification, on integers, with
  \<open>pageCount = ceil(total / page_size)\<close> as a ceiling of the real quotient.
\<close>

definition spec_steps :: "int \<Rightarrow> int \<Rightarrow> int list" where
  "spec_steps cur pcount =
     (let beforeOffset = cur - 5;
          left = max 1 beforeOffset;
          right = min (cur + 4) pcount;
          afterOffset = pcount - cur - 5;
          right = (if beforeOffset < 0 then min pcount (right - beforeOffset) else right);
          left = (if afterOffset < 0 then max 1 (afterOffset + left) else left)
      in [left..right])"

definition spec_pageCount :: "pagination \<Rightarrow> int" where
  "spec_pageCount p = \<lceil>real_of_int (total' p) / real_of_int (page_size p)\<rceil>"

definition spec_window :: "pagination \<Rightarrow> int list" where
  "spec_window p = spec_steps (current p) (spec_pageCount p)"

text \<open>The signed 32-bit integers, on which \<open>| 0\<close> changes nothing.\<close>

definition int32 :: "int \<Rightarrow> bool" where
  "int32 x = (- 2147483648 \<le> x \<and> x < 2147483648)"

section \<open>Basic facts\<close>

lemma toInt32_id: "- 2147483648 \<le> x \<Longrightarrow> x < 2147483648 \<Longrightarrow> toInt32 x = x"
  by (simp add: toInt32_def)

lemma toInt32_range: "int32 (toInt32 x)"
  unfolding toInt32_def int32_def by simp

lemma Math_ceil_div_ceiling:
  assumes "b \<noteq> 0"
  shows "Math_ceil_div a b = Finite \<lceil>real_of_int a / real_of_int b\<rceil>"
proof -
  have "- (real_of_int a / real_of_int b) = real_of_int (- a) / real_of_int b"
    by simp
  then have "\<lfloor>- (real_of_int a / real_of_int b)\<rfloor> = (- a) div b"
    by (simp only: floor_divide_of_int_eq)
  with assms show ?thesis
    by (simp add: Math_ceil_div_def ceiling_def)
qed

lemma pageCount_of_ceiling:
  assumes "int32 (page_size p)" "int32 (total' p)" "page_size p \<noteq> 0"
  shows "pageCount_of (Some p) = Finite (spec_pageCount p)"
  using assms
  by (simp add: pageCount_of_def int32_def toInt32_id Math_ceil_div_ceiling spec_pageCount_def)

lemma pageCount_of_NaN_iff:
  "pageCount_of props = NaN \<longleftrightarrow>
     or0 (field total' props) = 0 \<and> or0 (field page_size props) = 0"
  by (simp add: pageCount_of_def Math_ceil_div_def)

lemma createEffect_pageCount:
  "createEffect props c = Some c' \<Longrightarrow> pageCount c' = pageCount_of props"
  by (auto simp: createEffect_def pageCount_of_def Let_def split: option.splits)

lemma js_le_Finite_mono: "n \<le> r \<Longrightarrow> js_le (Finite r) x \<Longrightarrow> js_le (Finite n) x"
  by (cases x) auto

subsection \<open>The loop of the effect\<close>

lemma for_push_upto: "for_push i r arr = arr @ [i..r]"
proof (induction i r arr rule: for_push.induct)
  case (1 i r arr)
  show ?case
  proof (cases "i \<le> r")
    case True
    then show ?thesis using 1 by (subst for_push.simps) (simp add: upto_rec1)
  next
    case False
    then show ?thesis by (subst for_push.simps) simp
  qed
qed

subsection \<open>The window, by the value of \<open>pageCount\<close>\<close>

text \<open>
  The effect always ends. With a finite \<open>pageCount\<close> its window is the list of the seven
  steps; with \<open>pageCount = Infinity\<close> (a positive total over page size 0) nothing clamps
  \<open>right\<close>; with minus infinity or NaN the loop test fails at once.
\<close>

lemma pageWindow_cases:
  "pageWindow props =
     (case pageCount_of props of
        Finite pc \<Rightarrow> Some (spec_steps (or0 (field current props)) pc)
      | PlusInfinity \<Rightarrow>
          Some [max 1 (or0 (field current props) - 5)..
                (if or0 (field current props) - 5 < 0 then 9 else or0 (field current props) + 4)]
      | MinusInfinity \<Rightarrow> Some []
      | NaN \<Rightarrow> Some [])"
proof (cases "pageCount_of props")
  case (Finite pc)
  then show ?thesis
    unfolding pageWindow_def createEffect_def pageCount_of_def spec_steps_def
    by (simp add: Let_def js_sub_def for_push_upto max_def min_def)
next
  case PlusInfinity
  then show ?thesis
    unfolding pageWindow_def createEffect_def pageCount_of_def
    by (simp add: Let_def js_sub_def for_push_upto max_def min_def)
next
  case MinusInfinity
  then show ?thesis
    unfolding pageWindow_def createEffect_def pageCount_of_def
    by (simp add: Let_def js_sub_def for_push_upto max_def min_def)
next
  case NaN
  then show ?thesis
    unfolding pageWindow_def createEffect_def pageCount_of_def
    by (simp add: Let_def js_sub_def for_push_upto max_def min_def)
qed

lemma spec_steps_upto:
  "\<exists>l r. spec_steps c pc = [l..r] \<and> 1 \<le> l \<and> r \<le> pc \<and> r - l \<le> 10"
  unfolding spec_steps_def Let_def
  by (intro exI conjI, rule refl) (auto simp: max_def min_def)

lemma spec_steps_nonempty: "1 \<le> pc \<Longrightarrow> spec_steps c pc \<noteq> []"
  unfolding spec_steps_def Let_def
  by (auto simp: max_def min_def)

lemma pageWindow_upto:
  "\<exists>l r. pageWindow props = Some [l..r] \<and> 1 \<le> l \<and>
     (l \<le> r \<longrightarrow> js_le (Finite r) (pageCount_of props)) \<and> r - l \<le> 10"
proof (cases "pageCount_of props")
  case (Finite pc)
  obtain l r where "spec_steps (or0 (field current props)) pc = [l..r]"
      "1 \<le> l" "r \<le> pc" "r - l \<le> 10"
    using spec_steps_upto by blast
  with Finite show ?thesis
    by (auto simp: pageWindow_cases)
next
  case PlusInfinity
  define l where "l = max 1 (or0 (field current props) - 5)"
  define r where "r = (if or0 (field current props) - 5 < 0 then 9
                       else or0 (field current props) + 4)"
  have "pageWindow props = Some [l..r]"
    using PlusInfinity by (simp add: pageWindow_cases l_def r_def)
  moreover have "1 \<le> l" "r - l \<le> 10"
    by (auto simp: l_def r_def max_def)
  moreover have "js_le (Finite r) (pageCount_of props)"
    using PlusInfinity by simp
  ultimately show ?thesis by blast
next
  case MinusInfinity
  then have "pageWindow props = Some [1..0]"
    by (simp add: pageWindow_cases)
  moreover have "(1::int) \<le> 1" "(0::int) - 1 \<le> 10" "\<not> (1::int) \<le> 0"
    by simp_all
  ultimately show ?thesis by blast
next
  case NaN
  then have "pageWindow props = Some [1..0]"
    by (simp add: pageWindow_cases)
  moreover have "(1::int) \<le> 1" "(0::int) - 1 \<le> 10" "\<not> (1::int) \<le> 0"
    by simp_all
  ultimately show ?thesis by blast
qed

text \<open>The window never has more than eleven page numbers.\<close>

lemma pageWindow_length_le_11: "pageWindow props = Some w \<Longrightarrow> length w \<le> 11"
  using pageWindow_upto [of props] by auto

subsection \<open>The dataset and the slice\<close>

lemma build_resolves_eq: "build_resolves i len acc = acc @ map resolve_at [i..<len]"
proof (induction i len acc rule: build_resolves.induct)
  case (1 i len acc)
  show ?case
  proof (cases "i < len")
    case True
    then show ?thesis using 1 by (subst build_resolves.simps) (simp add: upt_conv_Cons)
  next
    case False
    then show ?thesis by (subst build_resolves.simps) simp
  qed
qed

lemma resolves_of_eq: "resolves_of len = map resolve_at [0..<len]"
  by (simp add: resolves_of_def build_resolves_eq)

lemma length_resolves_of: "length (resolves_of len) = len"
  by (simp add: resolves_of_eq)

lemma forEach_push_in_range:
  "forEach (push_in_range s e) k xs lst =
     lst @ map (\<lambda>i. xs ! (i - k)) (filter (\<lambda>i. s \<le> int i \<and> int i < e) [k..<k + length xs])"
proof (induction xs arbitrary: k lst)
  case Nil
  then show ?case by simp
next
  case (Cons v rest)
  have *: "map (\<lambda>i. (v # rest) ! (i - k)) (filter P [Suc k..<Suc k + length rest])
         = map (\<lambda>i. rest ! (i - Suc k)) (filter P [Suc k..<Suc k + length rest])" for P
    by (rule map_cong) (auto simp: nth_Cons')
  have "[k..<k + length (v # rest)] = k # [Suc k..<Suc k + length rest]"
    by (subst upt_rec) simp
  then show ?case
    using Cons.IH [of "Suc k"] * by (simp add: push_in_range_def)
qed

lemma filter_range_upt:
  "filter (\<lambda>i. s \<le> int i \<and> int i < e) [0..<n] = [nat s..<min n (nat e)]"
proof (induction n)
  case 0
  then show ?case by simp
next
  case (Suc n)
  show ?case
  proof (cases "s \<le> int n \<and> int n < e")
    case True
    then have "min (Suc n) (nat e) = Suc n" "min n (nat e) = n" "nat s \<le> n" by auto
    with True Suc show ?thesis by simp
  next
    case False
    then have "min (Suc n) (nat e) = min n (nat e) \<or>
        min n (nat e) \<le> nat s \<and> min (Suc n) (nat e) \<le> nat s"
      by auto
    with False Suc show ?thesis by auto
  qed
qed

lemma list_listPicturesOk_len:
  "list' (listPicturesOk_len len c) =
     map (\<lambda>i. resolves_of len ! i)
       (filter (\<lambda>i. (c - 1) * 10 \<le> int i \<and> int i < (c - 1) * 10 + 10) [0..<len])"
  by (simp add: listPicturesOk_len_def forEach_push_in_range length_resolves_of)

lemma length_list_listPicturesOk_len:
  "length (list' (listPicturesOk_len len c)) =
     min len (nat ((c - 1) * 10 + 10)) - nat ((c - 1) * 10)"
  by (simp add: list_listPicturesOk_len filter_range_upt)

lemma map_nth_upt_take_drop:
  assumes "b \<le> length ys"
  shows "map (\<lambda>i. ys ! i) [a..<b] = take (b - a) (drop a ys)"
proof (rule map_upt_eqI)
  show "length (take (b - a) (drop a ys)) = b - a"
    using assms by simp
next
  fix i
  assume "i < length (take (b - a) (drop a ys))"
  then have "i < b - a" "a \<le> length ys" using assms by simp_all
  then show "take (b - a) (drop a ys) ! i = ys ! (a + i)" by simp
qed

lemma list_take_drop:
  "list' (listPicturesOk_len len c) =
    take (min len (nat ((c - 1) * 10 + 10)) - nat ((c - 1) * 10))
      (drop (nat ((c - 1) * 10)) (resolves_of len))"
  by (simp only: list_listPicturesOk_len filter_range_upt)
     (simp add: map_nth_upt_take_drop length_resolves_of)

lemma pagination_listPicturesOk:
  "pagination (listPicturesOk c) = \<lparr>current = c, page_size = 10, total' = 54\<rparr>"
  by (simp add: listPicturesOk_def length'_def listPicturesOk_len_def Let_def)

section \<open>The claims\<close>

text \<open>
  C1. The claim: for every descriptor with \<open>page_size > 0\<close> the page window has at most 10
  page numbers. On the last pages the effect emits eleven: for 200 items in pages of 10
  (20 pages) and \<open>current = 20\<close> the window is the pages 10 to 20. (Eleven is the most it
  ever emits: \<open>pageWindow_length_le_11\<close>.)
\<close>

theorem window_of_eleven_pages:
  "pageWindow (Some \<lparr>current = 20, page_size = 10, total' = 200\<rparr>)
     = Some [10, 11, 12, 13, 14, 15, 16, 17, 18, 19, 20]"
  by (simp add: pageWindow_cases pageCount_of_def Math_ceil_div_def toInt32_def spec_steps_def)

text \<open>
  C2. The claim: for every descriptor the window is the result of the specification's seven
  steps. The effect reads the fields through \<open>| 0\<close>, which wraps an integer outside the
  signed 32-bit range: for 3000000000 items in pages of 10 and \<open>current = 1\<close> it computes
  with a negative total and emits nothing, where the seven steps give the pages 1 to 9.
\<close>

theorem window_differs_from_spec_outside_int32:
  "pageWindow (Some \<lparr>current = 1, page_size = 10, total' = 3000000000\<rparr>) = Some [] \<and>
   spec_window \<lparr>current = 1, page_size = 10, total' = 3000000000\<rparr> = [1, 2, 3, 4, 5, 6, 7, 8, 9] \<and>
   pageWindow (Some \<lparr>current = 1, page_size = 10, total' = 3000000000\<rparr>)
     \<noteq> Some (spec_window \<lparr>current = 1, page_size = 10, total' = 3000000000\<rparr>)"
  by (simp add: pageWindow_cases pageCount_of_def Math_ceil_div_def toInt32_def spec_steps_def
      spec_window_def spec_pageCount_def upto_rec1)

text \<open>
  C2, as the code has it. For every descriptor whose fields are signed 32-bit integers and
  whose page size is not 0, the effect ends and its window is the result of the
  specification's seven steps on that descriptor, with \<open>pageCount = ceil(total / page_size)\<close>.
\<close>

theorem window_refines_spec_algorithm:
  assumes "int32 (current p)" "int32 (page_size p)" "int32 (total' p)" "page_size p \<noteq> 0"
  shows "pageWindow (Some p) = Some (spec_window p)"
proof -
  have "pageCount_of (Some p) = Finite (spec_pageCount p)"
    using assms by (simp add: pageCount_of_ceiling)
  moreover have "or0 (field current (Some p)) = current p"
    using assms by (simp add: int32_def toInt32_id)
  ultimately show ?thesis
    by (simp add: pageWindow_cases spec_window_def)
qed

theorem window_refines_spec_algorithm_witness:
  "int32 3 \<and> int32 10 \<and> int32 54 \<and> (10::int) \<noteq> 0 \<and>
   pageWindow (Some \<lparr>current = 3, page_size = 10, total' = 54\<rparr>) = Some [1, 2, 3, 4, 5, 6] \<and>
   spec_window \<lparr>current = 3, page_size = 10, total' = 54\<rparr> = [1, 2, 3, 4, 5, 6]"
  using window_refines_spec_algorithm [of "\<lparr>current = 3, page_size = 10, total' = 54\<rparr>"]
  by (simp add: int32_def spec_window_def spec_pageCount_def spec_steps_def upto_rec1)

text \<open>
  C3. For every integer \<open>current\<close>, with \<open>start = (current - 1) * 10\<close> and
  \<open>end = start + 10\<close>, \<open>listPicturesOk\<close> returns exactly the items of the dataset at the
  indices \<open>start \<le> index < end\<close>, in the order of the dataset; the list is empty when
  \<open>start\<close> is at least the total; and the descriptor is \<open>{current, page_size: 10, total: 54}\<close>
  with the requested \<open>current\<close> as it came.
\<close>

theorem listPicturesOk_slice:
  "list' (listPicturesOk c) =
     map (\<lambda>i. resolves ! i)
       (filter (\<lambda>i. (c - 1) * 10 \<le> int i \<and> int i < (c - 1) * 10 + 10) [0..<length resolves]) \<and>
   (int (length resolves) \<le> (c - 1) * 10 \<longrightarrow> list' (listPicturesOk c) = []) \<and>
   pagination (listPicturesOk c) = \<lparr>current = c, page_size = 10, total' = 54\<rparr> \<and>
   length resolves = 54"
proof -
  have len: "length resolves = 54"
    by (simp add: resolves_def length'_def length_resolves_of)
  have "list' (listPicturesOk c) =
     map (\<lambda>i. resolves ! i)
       (filter (\<lambda>i. (c - 1) * 10 \<le> int i \<and> int i < (c - 1) * 10 + 10) [0..<length resolves])"
    unfolding len by (simp add: listPicturesOk_def resolves_def length'_def list_listPicturesOk_len)
  moreover have "list' (listPicturesOk c) = []" if "int (length resolves) \<le> (c - 1) * 10"
    using that unfolding len
    by (simp add: listPicturesOk_def length'_def list_listPicturesOk_len filter_range_upt)
  ultimately show ?thesis using len pagination_listPicturesOk by blast
qed

theorem listPicturesOk_slice_witness:
  "int (length resolves) \<le> (7 - 1) * 10 \<and> list' (listPicturesOk 7) = [] \<and>
   pagination (listPicturesOk 7) = \<lparr>current = 7, page_size = 10, total' = 54\<rparr>"
  using listPicturesOk_slice [of 7] by simp

text \<open>
  C4. The claim: for every descriptor every page number \<open>n\<close> of the window satisfies
  \<open>1 \<le> n \<le> pageCount\<close> with \<open>pageCount = ceil(total / page_size)\<close>, and the window is a
  contiguous, strictly ascending run. The effect divides the fields as \<open>| 0\<close> reads them:
  for 5 items in pages of 4294967297, one page, it reads the page size as 1 and emits the
  pages 1 to 5.
\<close>

theorem window_exceeds_pageCount_outside_int32:
  "pageWindow (Some \<lparr>current = 1, page_size = 4294967297, total' = 5\<rparr>) = Some [1, 2, 3, 4, 5] \<and>
   spec_pageCount \<lparr>current = 1, page_size = 4294967297, total' = 5\<rparr> = 1 \<and>
   5 \<in> set [1, 2, 3, 4, 5 :: int] \<and>
   \<not> 5 \<le> spec_pageCount \<lparr>current = 1, page_size = 4294967297, total' = 5\<rparr>"
  by (simp add: pageWindow_cases pageCount_of_def Math_ceil_div_def toInt32_def spec_steps_def
      spec_pageCount_def upto_rec1)

text \<open>
  C4, as the code has it. For every descriptor the effect ends, every page number \<open>n\<close> of
  its window is at least 1, and each page number of the window is its predecessor plus one
  (a contiguous, strictly ascending run); and \<open>n \<le> ceil(total / page_size)\<close> whenever
  \<open>total\<close> and \<open>page_size\<close> are signed 32-bit integers and the page size is not 0.
\<close>

theorem window_pages_valid:
  "\<exists>w. pageWindow (Some p) = Some w \<and>
     (\<forall>n \<in> set w. 1 \<le> n \<and>
        (int32 (total' p) \<and> int32 (page_size p) \<and> page_size p \<noteq> 0 \<longrightarrow>
           n \<le> \<lceil>real_of_int (total' p) / real_of_int (page_size p)\<rceil>)) \<and>
     (\<forall>i. Suc i < length w \<longrightarrow> w ! Suc i = w ! i + 1)"
proof -
  obtain l r where w: "pageWindow (Some p) = Some [l..r]" and l: "1 \<le> l"
      and r: "l \<le> r \<longrightarrow> js_le (Finite r) (pageCount_of (Some p))"
    using pageWindow_upto by blast
  have "1 \<le> n \<and>
      (int32 (total' p) \<and> int32 (page_size p) \<and> page_size p \<noteq> 0 \<longrightarrow>
         n \<le> \<lceil>real_of_int (total' p) / real_of_int (page_size p)\<rceil>)"
    if "n \<in> set [l..r]" for n
  proof -
    from that have n: "l \<le> n" "n \<le> r" by simp_all
    with r have le: "js_le (Finite n) (pageCount_of (Some p))"
      using js_le_Finite_mono [of n r] by auto
    have "n \<le> \<lceil>real_of_int (total' p) / real_of_int (page_size p)\<rceil>"
      if "int32 (total' p) \<and> int32 (page_size p) \<and> page_size p \<noteq> 0"
      using that le pageCount_of_ceiling [of p] by (simp add: spec_pageCount_def)
    with n l show ?thesis by auto
  qed
  moreover have "[l..r] ! Suc i = [l..r] ! i + 1" if "Suc i < length [l..r]" for i
  proof -
    from that have "l + int (Suc i) \<le> r" "l + int i \<le> r" by simp_all
    then show ?thesis by simp
  qed
  ultimately show ?thesis using w by blast
qed

theorem window_pages_valid_witness:
  "pageWindow (Some \<lparr>current = 3, page_size = 10, total' = 54\<rparr>) = Some [1, 2, 3, 4, 5, 6] \<and>
   6 \<in> set [1, 2, 3, 4, 5, 6 :: int] \<and> int32 54 \<and> int32 10 \<and> (10::int) \<noteq> 0 \<and>
   (1::int) \<le> 6 \<and> (6::int) \<le> \<lceil>real_of_int 54 / real_of_int 10\<rceil> \<and>
   Suc 4 < length [1, 2, 3, 4, 5, 6 :: int] \<and>
   [1, 2, 3, 4, 5, 6 :: int] ! Suc 4 = [1, 2, 3, 4, 5, 6] ! 4 + 1"
  using window_pages_valid [of "\<lparr>current = 3, page_size = 10, total' = 54\<rparr>"]
  by (simp add: pageWindow_cases pageCount_of_def Math_ceil_div_def toInt32_def spec_steps_def
      upto_rec1 int32_def)

text \<open>
  C5. The fixed dataset has 54 items in pages of 10, six pages: every page from 1 to 6 has
  10 items but the last, which has \<open>54 - 10 * (6 - 1)\<close>; page 1 has 10 items, page 6 the 4
  items at the indices 50 to 53, page 7 none.
\<close>

theorem listPicturesOk_page_lengths:
  "(\<forall>c \<in> {1..6}. length (list' (listPicturesOk c)) = (if c = 6 then 54 - 10 * (6 - 1) else 10)) \<and>
   length (list' (listPicturesOk 1)) = 10 \<and>
   length (list' (listPicturesOk 6)) = 4 \<and>
   list' (listPicturesOk 6) = map (\<lambda>i. resolves ! i) [50, 51, 52, 53] \<and>
   length (list' (listPicturesOk 7)) = 0 \<and>
   pageCount_of (Some (pagination (listPicturesOk 1))) = Finite 6"
proof -
  have len: "length (list' (listPicturesOk c)) =
      min 54 (nat ((c - 1) * 10 + 10)) - nat ((c - 1) * 10)" for c
    by (simp add: listPicturesOk_def length'_def length_list_listPicturesOk_len)
  have "length (list' (listPicturesOk c)) = (if c = 6 then 54 - 10 * (6 - 1) else 10)"
    if "c \<in> {1..6}" for c
  proof -
    from that have "1 \<le> c" "c \<le> 6" by simp_all
    then show ?thesis unfolding len by (auto simp: min_def)
  qed
  moreover have "list' (listPicturesOk 6) = map (\<lambda>i. resolves ! i) [50, 51, 52, 53]"
  proof -
    have "[nat ((6 - 1) * 10)..<min 54 (nat ((6 - 1) * 10 + 10))] = [50, 51, 52, 53]"
      by (simp add: upt_rec)
    then show ?thesis
      unfolding listPicturesOk_def resolves_def length'_def list_listPicturesOk_len
        filter_range_upt
      by simp
  qed
  moreover have "pageCount_of (Some (pagination (listPicturesOk 1))) = Finite 6"
    by (simp add: pagination_listPicturesOk pageCount_of_def Math_ceil_div_def toInt32_def)
  ultimately show ?thesis by (simp add: len)
qed

theorem listPicturesOk_page_lengths_witness:
  "(3::int) \<in> {1..6} \<and> length (list' (listPicturesOk 3)) = 10"
  using listPicturesOk_page_lengths by simp

text \<open>
  C6. The claim: the calls with \<open>current = 0\<close> and \<open>current = 1\<close> return overlapping, nearly
  identical lists that share their leading items. They share nothing: page 0 is empty and
  page 1 is the first ten items.
\<close>

theorem listPicturesOk_0_and_1_share_nothing:
  "list' (listPicturesOk 0) = [] \<and>
   list' (listPicturesOk 1) = take 10 resolves \<and>
   length (list' (listPicturesOk 1)) = 10 \<and>
   \<not> (\<exists>v. v \<in> set (list' (listPicturesOk 0)) \<and> v \<in> set (list' (listPicturesOk 1)))"
  by (simp add: listPicturesOk_def resolves_def length'_def list_take_drop length_resolves_of)

text \<open>
  C6, as the code has it. For \<open>current \<le> 0\<close>, \<open>start\<close> is negative, \<open>index \<ge> start\<close> holds
  for every index, and the result is the items from index 0 up to \<open>end\<close>, \<open>end\<close> excluded;
  \<open>end\<close> is at most 0, so the result is empty and shares no item with page 1.
\<close>

theorem listPicturesOk_nonpositive_prefix:
  assumes "c \<le> 0"
  shows "(c - 1) * 10 < 0 \<and> (\<forall>index::nat. (c - 1) * 10 \<le> int index) \<and>
     list' (listPicturesOk c) = take (nat ((c - 1) * 10 + 10)) resolves \<and>
     list' (listPicturesOk c) = [] \<and>
     set (list' (listPicturesOk c)) \<inter> set (list' (listPicturesOk 1)) = {}"
proof -
  from assms have "(c - 1) * 10 < 0" "(c - 1) * 10 + 10 \<le> 0" by simp_all
  moreover from this have "(c - 1) * 10 \<le> int index" for index :: nat by linarith
  moreover have "list' (listPicturesOk c) = []"
    using assms
    by (simp add: listPicturesOk_def length'_def list_listPicturesOk_len filter_range_upt)
  ultimately show ?thesis by simp
qed

theorem listPicturesOk_nonpositive_prefix_witness:
  "(0::int) \<le> 0 \<and> list' (listPicturesOk 0) = take (nat ((0 - 1) * 10 + 10)) resolves \<and>
   list' (listPicturesOk 0) = []"
  using listPicturesOk_nonpositive_prefix [of 0] by simp

text \<open>
  C7. When \<open>total\<close> is 0 the window is empty, whatever \<open>current\<close> and \<open>page_size\<close> are
  (\<open>pageCount\<close> is 0, or NaN when the page size reads as 0 too); and over an empty dataset
  \<open>listPicturesOk\<close> returns the empty list for page 1.
\<close>

theorem empty_total_empty_window:
  "(total' p = 0 \<longrightarrow> pageWindow (Some p) = Some []) \<and>
   (total' p = 0 \<and> toInt32 (page_size p) \<noteq> 0 \<longrightarrow> pageCount_of (Some p) = Finite 0) \<and>
   list' (listPicturesOk_len 0 1) = []"
proof -
  have "pageWindow (Some p) = Some []" if "total' p = 0"
  proof (cases "toInt32 (page_size p) = 0")
    case True
    with that show ?thesis
      by (simp add: pageWindow_cases pageCount_of_def Math_ceil_div_def toInt32_def)
  next
    case False
    with that have "pageCount_of (Some p) = Finite 0"
      by (simp add: pageCount_of_def Math_ceil_div_def toInt32_def)
    then show ?thesis
      by (simp add: pageWindow_cases spec_steps_def Let_def)
  qed
  moreover have "pageCount_of (Some p) = Finite 0"
    if "total' p = 0" "toInt32 (page_size p) \<noteq> 0"
    using that by (simp add: pageCount_of_def Math_ceil_div_def toInt32_def)
  moreover have "list' (listPicturesOk_len 0 1) = []"
    by (simp add: list_listPicturesOk_len)
  ultimately show ?thesis by blast
qed

theorem empty_total_empty_window_witness:
  "total' \<lparr>current = 1, page_size = 10, total' = 0\<rparr> = 0 \<and>
   toInt32 (page_size \<lparr>current = 1, page_size = 10, total' = 0\<rparr>) \<noteq> 0 \<and>
   pageWindow (Some \<lparr>current = 1, page_size = 10, total' = 0\<rparr>) = Some [] \<and>
   pageCount_of (Some \<lparr>current = 1, page_size = 10, total' = 0\<rparr>) = Finite 0"
  using empty_total_empty_window [of "\<lparr>current = 1, page_size = 10, total' = 0\<rparr>"]
  by (simp add: toInt32_def)

text \<open>
  C8. The claim: the previous control calls \<open>pageSetter\<close> if and only if \<open>current > 1\<close>, the
  next control if and only if \<open>current < pageCount\<close>, and otherwise the handler returns
  without effect. Each handler returns early when its comparison (\<open>current <= 1\<close>,
  \<open>current >= pageCount\<close>) holds, and no comparison with NaN or \<open>undefined\<close> holds. For no
  items in pages of 4294967296 the effect reads the page size as 0 and leaves
  \<open>pageCount = NaN\<close>: then \<open>next\<close> calls \<open>pageSetter\<close> though \<open>current < pageCount\<close> is
  false. With an absent descriptor \<open>prev\<close> calls it though \<open>current > 1\<close> is false.
\<close>

theorem handlers_fire_without_comparison:
  "createEffect (Some \<lparr>current = 1, page_size = 4294967296, total' = 0\<rparr>) Pagination_init
     = Some \<lparr>pageCount = NaN, beforeOffset = Finite (- 4), left = Finite 1, right = NaN,
             afterOffset = NaN, pageArray = Some []\<rparr> \<and>
   \<not> js_lt (Finite 1) NaN \<and>
   next_onClick
     \<lparr>pageCount = NaN, beforeOffset = Finite (- 4), left = Finite 1, right = NaN,
      afterOffset = NaN, pageArray = Some []\<rparr>
     (Some \<lparr>current = 1, page_size = 4294967296, total' = 0\<rparr>)
     = [PageSetter ''current'' (Updater (\<lambda>q. q + 1))] \<and>
   \<not> js_lt (Finite 1) (to_number (field current None)) \<and>
   prev_onClick None = [PageSetter ''current'' (Updater (\<lambda>q. q - 1))]"
  by (simp add: createEffect_def Pagination_init_def Math_ceil_div_def toInt32_def js_sub_def
      next_onClick_def prev_onClick_def js_ge_def)

text \<open>
  C8, as the code has it. With a descriptor present, the previous control calls
  \<open>pageSetter\<close>, with the updater \<open>p - 1\<close>, exactly when \<open>current > 1\<close>, and the next control
  calls it, with the updater \<open>p + 1\<close>, exactly when \<open>current < pageCount\<close> or \<open>pageCount\<close>
  is NaN; otherwise the handler makes no call. With the descriptor absent both handlers
  call \<open>pageSetter\<close>. (\<open>pageCount\<close> is NaN exactly after the effect has read both \<open>total\<close>
  and \<open>page_size\<close> as 0: \<open>pageCount_of_NaN_iff\<close>.)
\<close>

theorem prev_next_guards:
  "prev_onClick (Some p) =
     (if 1 < current p then [PageSetter ''current'' (Updater (\<lambda>q. q - 1))] else []) \<and>
   next_onClick c (Some p) =
     (if js_lt (Finite (current p)) (pageCount c) \<or> pageCount c = NaN
      then [PageSetter ''current'' (Updater (\<lambda>q. q + 1))] else []) \<and>
   prev_onClick None = [PageSetter ''current'' (Updater (\<lambda>q. q - 1))] \<and>
   next_onClick c None = [PageSetter ''current'' (Updater (\<lambda>q. q + 1))]"
  by (cases "pageCount c") (auto simp: prev_onClick_def next_onClick_def js_ge_def)

theorem prev_next_guards_witness:
  "prev_onClick (Some \<lparr>current = 6, page_size = 10, total' = 54\<rparr>) =
     [PageSetter ''current'' (Updater (\<lambda>q. q - 1))] \<and>
   next_onClick (Pagination_init\<lparr>pageCount := Finite 6\<rparr>)
     (Some \<lparr>current = 6, page_size = 10, total' = 54\<rparr>) = [] \<and>
   prev_onClick (Some \<lparr>current = 1, page_size = 10, total' = 54\<rparr>) = [] \<and>
   next_onClick (Pagination_init\<lparr>pageCount := Finite 6\<rparr>)
     (Some \<lparr>current = 1, page_size = 10, total' = 54\<rparr>) =
     [PageSetter ''current'' (Updater (\<lambda>q. q + 1))] \<and>
   next_onClick (Pagination_init\<lparr>pageCount := NaN\<rparr>)
     (Some \<lparr>current = 1, page_size = 0, total' = 0\<rparr>) =
     [PageSetter ''current'' (Updater (\<lambda>q. q + 1))]"
  using prev_next_guards [of "\<lparr>current = 6, page_size = 10, total' = 54\<rparr>"
      "Pagination_init\<lparr>pageCount := Finite 6\<rparr>"]
    prev_next_guards [of "\<lparr>current = 1, page_size = 10, total' = 54\<rparr>"
      "Pagination_init\<lparr>pageCount := Finite 6\<rparr>"]
    prev_next_guards [of "\<lparr>current = 1, page_size = 0, total' = 0\<rparr>"
      "Pagination_init\<lparr>pageCount := NaN\<rparr>"]
  by simp

text \<open>
  C9. For every integer \<open>current \<le> 0\<close>, \<open>listPicturesOk\<close> returns the empty list, and the
  descriptor \<open>{current, page_size: 10, total: 54}\<close> with the requested \<open>current\<close>.
\<close>

theorem listPicturesOk_nonpositive_empty:
  assumes "c \<le> 0"
  shows "list' (listPicturesOk c) = [] \<and>
     pagination (listPicturesOk c) = \<lparr>current = c, page_size = 10, total' = 54\<rparr>"
proof -
  have "list' (listPicturesOk c) = []"
    using assms
    by (simp add: listPicturesOk_def length'_def list_listPicturesOk_len filter_range_upt)
  then show ?thesis by (simp add: pagination_listPicturesOk)
qed

theorem listPicturesOk_nonpositive_empty_witness:
  "(- 2::int) \<le> 0 \<and> list' (listPicturesOk (- 2)) = [] \<and>
   pagination (listPicturesOk (- 2)) = \<lparr>current = - 2, page_size = 10, total' = 54\<rparr>"
  using listPicturesOk_nonpositive_empty [of "- 2"] by simp

text \<open>
  C10. Whenever \<open>pageCount \<ge> 1\<close>, the effect ends with a window that is not empty, for every
  \<open>current\<close>, below 1 and above \<open>pageCount\<close> included.
\<close>

theorem window_nonempty:
  assumes "js_le (Finite 1) (pageCount_of props)"
  shows "\<exists>w. pageWindow props = Some w \<and> w \<noteq> []"
proof (cases "pageCount_of props")
  case (Finite pc)
  with assms have "1 \<le> pc" by simp
  then show ?thesis using Finite by (simp add: pageWindow_cases spec_steps_nonempty)
next
  case PlusInfinity
  then show ?thesis by (simp add: pageWindow_cases max_def)
next
  case MinusInfinity
  with assms show ?thesis by simp
next
  case NaN
  with assms show ?thesis by simp
qed

theorem window_nonempty_witness:
  "js_le (Finite 1) (pageCount_of (Some \<lparr>current = 100, page_size = 10, total' = 54\<rparr>)) \<and>
   pageWindow (Some \<lparr>current = 100, page_size = 10, total' = 54\<rparr>) = Some [1, 2, 3, 4, 5, 6]"
  using window_nonempty [of "Some \<lparr>current = 100, page_size = 10, total' = 54\<rparr>"]
  by (simp add: pageWindow_cases pageCount_of_def Math_ceil_div_def toInt32_def spec_steps_def
      upto_rec1)

end
